theory Spec2Isabelle
  imports Complex_Main "HOL-Library.AList" "HOL-Library.Sublist" "HOL-Library.Multiset"
begin

section \<open>Time\<close>

text \<open>
  A Python \<open>datetime\<close> in UTC is a whole number of microseconds since the epoch, and a
  \<open>timedelta\<close> is a whole number of microseconds. \<open>timedelta.total_seconds()\<close> is the
  float nearest to that number divided by \<open>10^6\<close>; floats are modelled as the reals they
  denote.
\<close>

type_synonym instant = int
type_synonym timedelta = int

definition usec :: int where
  "usec = 1000000"

definition minutes :: "int \<Rightarrow> timedelta" where
  "minutes n = n * 60 * usec"

definition total_seconds :: "timedelta \<Rightarrow> real" where
  "total_seconds d = real_of_int d / 1000000"

section \<open>Decimal text of an integer\<close>

text \<open>What an f-string writes for an \<open>int\<close>: \<open>str(i)\<close>.\<close>

definition digit :: "nat \<Rightarrow> char" where
  "digit n = ''0123456789'' ! n"

fun str_nat :: "nat \<Rightarrow> string" where
  "str_nat n = (if n < 10 then [digit n] else str_nat (n div 10) @ [digit (n mod 10)])"

declare str_nat.simps [simp del]

definition str_int :: "int \<Rightarrow> string" where
  "str_int i = (if i < 0 then CHR ''-'' # str_nat (nat (- i)) else str_nat (nat i))"

section \<open>format_countdown\<close>

text \<open>
  Python's \<open>//\<close> and \<open>%\<close> on floats with a positive divisor, and \<open>int()\<close> of a float
  (truncation towards zero).
\<close>

definition py_floordiv :: "real \<Rightarrow> real \<Rightarrow> real" where
  "py_floordiv a b = of_int \<lfloor>a / b\<rfloor>"

definition py_mod :: "real \<Rightarrow> real \<Rightarrow> real" where
  "py_mod a b = a - b * of_int \<lfloor>a / b\<rfloor>"

definition py_int :: "real \<Rightarrow> int" where
  "py_int x = (if 0 \<le> x then \<lfloor>x\<rfloor> else \<lceil>x\<rceil>)"

definition format_countdown :: "real \<Rightarrow> string" where
  "format_countdown seconds =
     (if seconds \<le> 0 then ''0s''
      else if seconds \<ge> 3600 then
        (let hours = py_int (py_floordiv seconds 3600);
             mins = py_int (py_floordiv (py_mod seconds 3600) 60);
             secs = py_int (py_mod seconds 60)
         in str_int hours @ ''h '' @ str_int mins @ ''m '' @ str_int secs @ ''s'')
      else if seconds \<ge> 60 then
        (let mins = py_int (py_floordiv seconds 60);
             secs = py_int (py_mod seconds 60)
         in str_int mins @ ''m '' @ str_int secs @ ''s'')
      else str_int (py_int seconds) @ ''s'')"

text \<open>
  The countdown format as the specification words it: the input is cut to whole seconds
  (no rounding) and the whole seconds are split into hours, minutes and seconds.
\<close>

definition countdown_spec :: "real \<Rightarrow> string" where
  "countdown_spec s =
     (let n = \<lfloor>s\<rfloor> in
      if s \<le> 0 then ''0s''
      else if s < 60 then str_int n @ ''s''
      else if s < 3600 then str_int (n div 60) @ ''m '' @ str_int (n mod 60) @ ''s''
      else str_int (n div 3600) @ ''h '' @ str_int (n mod 3600 div 60) @ ''m ''
             @ str_int (n mod 60) @ ''s'')"

section \<open>RecurrenceClock: next and most recent run time\<close>

text \<open>
  \<open>CronTrigger.from_crontab(cron_str, timezone=utc)\<close> is an object of the scheduling
  library; the program uses it only through \<open>trigger.get_next_fire_time(None, t)\<close>. A
  trigger is therefore the function from a probe instant \<open>t\<close> to that call's answer, and
  the functions of the program take it as a parameter. \<open>datetime.now(timezone.utc)\<close> is
  the parameter \<open>now\<close>: every call reads the clock itself.
\<close>

type_synonym trigger = "instant \<Rightarrow> instant option"

definition get_next_run_time :: "trigger \<Rightarrow> instant \<Rightarrow> instant option" where
  "get_next_run_time trigger now = trigger now"

text \<open>
  The loop \<open>for minutes_back in range(1, 121)\<close>. A \<open>datetime\<close> is always truthy, so
  \<open>if next_fire and ...\<close> tests for \<open>None\<close>.
\<close>

fun previous_run_scan :: "trigger \<Rightarrow> instant \<Rightarrow> int list \<Rightarrow> instant option" where
  "previous_run_scan trigger now [] = None"
| "previous_run_scan trigger now (minutes_back # rest) =
     (let check_time = now - minutes minutes_back in
      case trigger check_time of
        None \<Rightarrow> previous_run_scan trigger now rest
      | Some next_fire \<Rightarrow>
          if next_fire \<le> now \<and> total_seconds (now - next_fire) \<le> 7200 then Some next_fire
          else previous_run_scan trigger now rest)"

definition get_previous_run_time :: "trigger \<Rightarrow> instant \<Rightarrow> instant option" where
  "get_previous_run_time trigger now = previous_run_scan trigger now [1..120]"

subsection \<open>Rules and the answers of the library\<close>

text \<open>
  A rule is seen through the set of its fire times. A crontab rule has no seconds field,
  so its fire times are whole minutes. The library starts its search at the probe
  rounded up to the whole second and accepts the probe itself, so it answers with the
  least fire time at or after the probe, and with \<open>None\<close> when there is none.
\<close>

definition whole_minutes :: "(instant \<Rightarrow> bool) \<Rightarrow> bool" where
  "whole_minutes fires \<longleftrightarrow> (\<forall>u. fires u \<longrightarrow> u mod minutes 1 = 0)"

definition answers_at_or_after :: "(instant \<Rightarrow> bool) \<Rightarrow> trigger \<Rightarrow> bool" where
  "answers_at_or_after fires trigger \<longleftrightarrow>
     (\<forall>t. case trigger t of
            None \<Rightarrow> (\<forall>u. fires u \<longrightarrow> u < t)
          | Some n \<Rightarrow> fires n \<and> t \<le> n \<and> (\<forall>u. fires u \<and> t \<le> u \<longrightarrow> n \<le> u))"

text \<open>
  Rules that fire every \<open>period\<close> microseconds, \<open>offset\<close> after a multiple of the
  period: \<open>M * * * *\<close> is \<open>hourly M\<close>, \<open>* * * * *\<close> is \<open>every_minute\<close>.
\<close>

definition fires_every :: "int \<Rightarrow> int \<Rightarrow> instant \<Rightarrow> bool" where
  "fires_every period offset t \<longleftrightarrow> t mod period = offset"

definition next_at_or_after :: "int \<Rightarrow> int \<Rightarrow> trigger" where
  "next_at_or_after period offset t = Some (t + (offset - t) mod period)"

definition hourly :: "int \<Rightarrow> trigger" where
  "hourly m = next_at_or_after (minutes 60) (minutes m)"

definition every_minute :: trigger where
  "every_minute = next_at_or_after (minutes 1) 0"

text \<open>
  The specification describes the answer as the least fire time strictly after the
  probe. For comparison, a periodic rule answered in that way.
\<close>

definition next_after :: "int \<Rightarrow> int \<Rightarrow> trigger" where
  "next_after period offset t = Some (t + 1 + (offset - t - 1) mod period)"

text \<open>The test of the loop body on one answer of the library.\<close>

definition accepted :: "instant \<Rightarrow> instant option \<Rightarrow> bool" where
  "accepted now c =
     (case c of None \<Rightarrow> False | Some n \<Rightarrow> n \<le> now \<and> total_seconds (now - n) \<le> 7200)"

section \<open>The sink and the state of the bot\<close>

text \<open>
  The chat platform is outside the program. Every call to it is an output of the model
  (an \<open>effect\<close>) and its result is an input (a \<open>reply\<close>): a value, or the exception
  the call raised, with the text that \<open>str(e)\<close> gives. The colour of an embed is a
  constant of the library and is left out.
\<close>

datatype failure = NotFound string | Forbidden string | Other string

fun failure_text :: "failure \<Rightarrow> string" where
  "failure_text (NotFound t) = t"
| "failure_text (Forbidden t) = t"
| "failure_text (Other t) = t"

type_synonym 'a reply = "failure + 'a"

record message =
  message_id :: int
  author_id :: int
  embed_titles :: "string option list"

record embed =
  title :: string
  description :: string
  embed_fields :: "(string \<times> string) list"
  footer :: "string option"
  timestamp :: "instant option"

datatype effect =
    Print string
  | Send_text string
  | Send_embed embed
  | Edit message embed
  | Delete message
  | History nat
  | Loop_stop
  | Loop_start
  | Close
  | Add_job string string
  | Scheduler_start
  | Run string

record pending_ping =
  ping_message :: message
  delete_time :: instant

text \<open>
  The two globals. \<open>active_ping_messages\<close> is a \<open>dict\<close>, modelled as an association
  list in insertion order with one entry for each key.
\<close>

record bot_state =
  persistent_message :: "message option"
  active_ping_messages :: "(string \<times> pending_ping) list"

definition initial_state :: bot_state where
  "initial_state = \<lparr>persistent_message = None, active_ping_messages = []\<rparr>"

record config =
  BOT_TOKEN :: "string option"
  GUILD_ID :: int
  CHANNEL_ID :: int
  NOTIFIER_ROLE_ID :: int

definition EVENT_SCHEDULE :: "(string \<times> string) list" where
  "EVENT_SCHEDULE =
     [(''Easy Dungeon'', ''0 * * * *''),
      (''Medium Dungeon'', ''10 * * * *''),
      (''Leaf Raid'', ''15 * * * *''),
      (''Hard Dungeon'', ''20 * * * *''),
      (''Insane Dungeon'', ''30 * * * *''),
      (''Crazy Dungeon'', ''40 * * * *''),
      (''Nightmare Dungeon'', ''50 * * * *'')]"

text \<open>The characters outside ASCII that the source writes, as their UTF-8 bytes.\<close>

definition castle :: string where
  "castle = [CHR 0xF0, CHR 0x9F, CHR 0x8F, CHR 0xB0]"

definition green_circle :: string where
  "green_circle = [CHR 0xF0, CHR 0x9F, CHR 0x9F, CHR 0xA2]"

definition stopwatch :: string where
  "stopwatch = [CHR 0xE2, CHR 0x8F, CHR 0xB1, CHR 0xEF, CHR 0xB8, CHR 0x8F]"

definition door :: string where
  "door = [CHR 0xF0, CHR 0x9F, CHR 0x9A, CHR 0xAA]"

definition yellow_circle :: string where
  "yellow_circle = [CHR 0xF0, CHR 0x9F, CHR 0x9F, CHR 0xA1]"

definition alarm_clock :: string where
  "alarm_clock = [CHR 0xE2, CHR 0x8F, CHR 0xB0]"

definition red_circle :: string where
  "red_circle = [CHR 0xF0, CHR 0x9F, CHR 0x94, CHR 0xB4]"

definition calendar :: string where
  "calendar = [CHR 0xF0, CHR 0x9F, CHR 0x93, CHR 0x85]"

definition robot :: string where
  "robot = [CHR 0xF0, CHR 0x9F, CHR 0xA4, CHR 0x96]"

definition bullet :: string where
  "bullet = [CHR 0xE2, CHR 0x80, CHR 0xA2]"

definition bell :: string where
  "bell = [CHR 0xF0, CHR 0x9F, CHR 0x94, CHR 0x94]"

definition newline :: string where
  "newline = [CHR 0x0A]"

section \<open>NotificationScheduler: send_ping\<close>

text \<open>
  \<open>send_reply\<close> is what \<open>await channel.send(notification_message)\<close> gave, and \<open>now\<close>
  is the clock read on line 69, after the send has returned.
\<close>

definition send_ping ::
  "config \<Rightarrow> string \<Rightarrow> message reply \<Rightarrow> instant \<Rightarrow> bot_state \<Rightarrow> bot_state \<times> effect list" where
  "send_ping cfg event_name send_reply now s =
     (let role_to_ping = ''<@&'' @ str_int (NOTIFIER_ROLE_ID cfg) @ ''>'';
          notification_message = role_to_ping @ '' **'' @ event_name @ ''** has started! Join now!''
      in case send_reply of
           Inr sent_message \<Rightarrow>
             (s\<lparr>active_ping_messages :=
                  AList.update event_name
                    \<lparr>ping_message = sent_message, delete_time = now + minutes 2\<rparr>
                    (active_ping_messages s)\<rparr>,
              [Send_text notification_message, Print (''Sent ping for '' @ event_name @ ''.'')])
         | Inl (Forbidden t) \<Rightarrow>
             (s, [Send_text notification_message,
                  Print (''Error: Bot lacks permissions to send messages in channel ''
                         @ str_int (CHANNEL_ID cfg) @ ''.'')])
         | Inl e \<Rightarrow>
             (s, [Send_text notification_message,
                  Print (''An error occurred during ping: '' @ failure_text e)]))"

text \<open>
  One occurrence of a rule: the scheduler runs the job
  \<open>send_ping(channel, NOTIFIER_ROLE_ID, name)\<close> registered by \<open>add_job\<close>. The fire time
  of the occurrence is not among the arguments of the job.
\<close>

record occurrence =
  fire_time :: instant
  send_reply :: "message reply"
  clock_after_send :: instant

definition fire :: "config \<Rightarrow> string \<Rightarrow> occurrence \<Rightarrow> bot_state \<Rightarrow> bot_state \<times> effect list" where
  "fire cfg event_name occ s = send_ping cfg event_name (send_reply occ) (clock_after_send occ) s"

section \<open>PingMessageJanitor: cleanup_ping_messages\<close>

fun expired_pings ::
  "instant \<Rightarrow> (message \<Rightarrow> unit reply) \<Rightarrow> (string \<times> pending_ping) list \<Rightarrow> string list \<times> effect list" where
  "expired_pings now delete_reply [] = ([], [])"
| "expired_pings now delete_reply ((event_name, msg_data) # rest) =
     (let (messages_to_remove, effs) = expired_pings now delete_reply rest in
      if now \<ge> delete_time msg_data then
        (case delete_reply (ping_message msg_data) of
           Inr _ \<Rightarrow>
             (event_name # messages_to_remove,
              Delete (ping_message msg_data)
                # Print (''Deleted ping message for '' @ event_name @ ''.'') # effs)
         | Inl (NotFound t) \<Rightarrow>
             (event_name # messages_to_remove, Delete (ping_message msg_data) # effs)
         | Inl e \<Rightarrow>
             (event_name # messages_to_remove,
              Delete (ping_message msg_data)
                # Print (''Error deleting ping message for '' @ event_name @ '': ''
                         @ failure_text e) # effs))
      else (messages_to_remove, effs))"

definition cleanup_ping_messages ::
  "instant \<Rightarrow> (message \<Rightarrow> unit reply) \<Rightarrow> bot_state \<Rightarrow> bot_state \<times> effect list" where
  "cleanup_ping_messages now delete_reply s =
     (let (messages_to_remove, effs) = expired_pings now delete_reply (active_ping_messages s)
      in (s\<lparr>active_ping_messages :=
               foldl (\<lambda>pings event_name. AList.delete event_name pings)
                 (active_ping_messages s) messages_to_remove\<rparr>,
          effs))"

section \<open>DisplayReconciler: setup_embed_message\<close>

text \<open>
  What the platform answers during one call of \<open>setup_embed_message\<close>: whether
  \<open>client.get_channel\<close> finds the channel, the result of \<open>channel.history(limit=50)\<close>
  (newest first), \<open>client.user.id\<close>, the result of sending the placeholder embed, and
  \<open>update_embed.is_running()\<close>.
\<close>

record setup_env =
  channel_found :: bool
  history_reply :: "message list reply"
  client_user_id :: int
  create_reply :: "message reply"
  loop_is_running :: bool

definition schedule_title :: string where
  "schedule_title = castle @ '' Dungeon & Raid Schedule''"

definition is_schedule_message :: "int \<Rightarrow> message \<Rightarrow> bool" where
  "is_schedule_message user_id msg \<longleftrightarrow>
     author_id msg = user_id \<and>
     (case embed_titles msg of
        [] \<Rightarrow> False
      | t # _ \<Rightarrow>
          (case t of
             None \<Rightarrow> False
           | Some text \<Rightarrow> text \<noteq> [] \<and> sublist ''Dungeon & Raid Schedule'' text))"

definition placeholder :: embed where
  "placeholder =
     \<lparr>title = schedule_title, description = ''Initializing countdown system...'',
      embed_fields = [], footer = None, timestamp = None\<rparr>"

definition setup_failure_line :: "config \<Rightarrow> failure \<Rightarrow> string" where
  "setup_failure_line cfg e =
     (case e of
        Forbidden t \<Rightarrow>
          ''FATAL: Bot lacks permissions to read history or send messages in channel ''
          @ str_int (CHANNEL_ID cfg) @ ''.''
      | _ \<Rightarrow> ''An error occurred during embed setup: '' @ failure_text e)"

definition start_loop :: "setup_env \<Rightarrow> effect list" where
  "start_loop env =
     (if \<not> loop_is_running env then [Loop_start, Print ''Started embed update loop.''] else [])"

definition setup_embed_message ::
  "config \<Rightarrow> setup_env \<Rightarrow> bot_state \<Rightarrow> bot_state \<times> effect list" where
  "setup_embed_message cfg env s =
     (if \<not> channel_found env then
        (s, [Print (''FATAL: Channel with ID '' @ str_int (CHANNEL_ID cfg) @ '' not found.'')])
      else
        case history_reply env of
          Inl e \<Rightarrow> (s, [History 50, Print (setup_failure_line cfg e)])
        | Inr msgs \<Rightarrow>
            (let (s1, e1) =
                   (case find (is_schedule_message (client_user_id env)) (take 50 msgs) of
                      None \<Rightarrow> (s, [History 50])
                    | Some msg \<Rightarrow>
                        (s\<lparr>persistent_message := Some msg\<rparr>,
                         [History 50,
                          Print (''Found existing message to edit: ''
                                 @ str_int (message_id msg))]))
             in case persistent_message s1 of
                  Some held \<Rightarrow> (s1, e1 @ start_loop env)
                | None \<Rightarrow>
                    (case create_reply env of
                       Inl e \<Rightarrow>
                         (s1, e1 @ [Send_embed placeholder, Print (setup_failure_line cfg e)])
                     | Inr sent \<Rightarrow>
                         (s1\<lparr>persistent_message := Some sent\<rparr>,
                          e1 @ [Send_embed placeholder,
                                Print (''Sent new persistent message: ''
                                       @ str_int (message_id sent))]
                             @ start_loop env))))"

section \<open>EventClassifier and DisplayRenderer: update_embed\<close>

record event_info =
  name :: string
  next_time :: instant
  prev_time :: "instant option"

text \<open>An entry of \<open>active_events\<close>: the event with the added key \<open>time_remaining\<close>.\<close>

type_synonym active_event = "event_info \<times> real"

text \<open>
  What one tick reads: the clock in \<open>cleanup_ping_messages\<close>, the result of each
  \<open>delete\<close>, the clock on line 122, for each event the trigger made from its rule and the
  clock read inside \<open>get_next_run_time\<close> and inside \<open>get_previous_run_time\<close>, the
  result of \<open>persistent_message.edit\<close>, and the answers for the recovery.
\<close>

record tick_env =
  cleanup_now :: instant
  delete_reply :: "message \<Rightarrow> unit reply"
  tick_now :: instant
  from_crontab :: "string \<Rightarrow> trigger"
  next_now :: "string \<Rightarrow> instant"
  prev_now :: "string \<Rightarrow> instant"
  edit_reply :: "unit reply"
  recovery :: setup_env

fun collect_events :: "tick_env \<Rightarrow> (string \<times> string) list \<Rightarrow> event_info list" where
  "collect_events env [] = []"
| "collect_events env ((event_name, schedule) # rest) =
     (let next_run = get_next_run_time (from_crontab env schedule) (next_now env event_name);
          prev_run = get_previous_run_time (from_crontab env schedule) (prev_now env event_name)
      in case next_run of
           Some n \<Rightarrow>
             \<lparr>name = event_name, next_time = n, prev_time = prev_run\<rparr> # collect_events env rest
         | None \<Rightarrow> collect_events env rest)"

fun partition_events :: "instant \<Rightarrow> event_info list \<Rightarrow> active_event list \<times> event_info list" where
  "partition_events now [] = ([], [])"
| "partition_events now (event # rest) =
     (let (active_events, upcoming_events) = partition_events now rest in
      case prev_time event of
        Some prev \<Rightarrow>
          (let time_since_start = total_seconds (now - prev) in
           if 0 \<le> time_since_start \<and> time_since_start \<le> 120
           then ((event, 120 - time_since_start) # active_events, upcoming_events)
           else (active_events, event # upcoming_events))
      | None \<Rightarrow> (active_events, event # upcoming_events))"

definition active_field :: "active_event \<Rightarrow> string \<times> string" where
  "active_field a =
     (let time_remaining = max 0 (snd a);
          countdown = format_countdown time_remaining
      in (green_circle @ '' **ACTIVE** - '' @ name (fst a),
          stopwatch @ '' Join window closes in: **'' @ countdown @ ''**'' @ newline
          @ door @ '' **JOIN NOW!**''))"

definition upcoming_field :: "instant \<Rightarrow> bool \<Rightarrow> nat \<times> event_info \<Rightarrow> string \<times> string" where
  "upcoming_field now no_active ie =
     (let i = fst ie; event = snd ie;
          time_until = total_seconds (next_time event - now)
      in if i = 0 \<and> no_active
         then (yellow_circle @ '' **NEXT UP** - '' @ name event,
               alarm_clock @ '' Starts in: **'' @ format_countdown time_until @ ''**'')
         else (red_circle @ '' **SCHEDULED** - '' @ name event,
               calendar @ '' Starts <t:''
               @ str_int (py_int (total_seconds (next_time event))) @ '':R>''))"

definition build_embed :: "instant \<Rightarrow> event_info list \<Rightarrow> embed" where
  "build_embed now events_info =
     (let (active_events, upcoming_events) = partition_events now events_info;
          active_sorted = sort_key snd active_events;
          upcoming_sorted = sort_key next_time upcoming_events
      in \<lparr>title = schedule_title,
          description = ''Live countdowns for hourly dungeons and raids'',
          embed_fields =
            map active_field active_sorted
            @ map (upcoming_field now (active_sorted = [])) (enumerate 0 upcoming_sorted),
          footer = Some (robot @ '' Auto-updating every 10 seconds '' @ bullet
                         @ '' Join during the green active window!''),
          timestamp = Some now\<rparr>)"

definition update_embed :: "config \<Rightarrow> tick_env \<Rightarrow> bot_state \<Rightarrow> bot_state \<times> effect list" where
  "update_embed cfg env s =
     (case persistent_message s of
        None \<Rightarrow> (s, [])
      | Some held \<Rightarrow>
          (let (s1, e1) = cleanup_ping_messages (cleanup_now env) (delete_reply env) s;
               now = tick_now env;
               events_info = collect_events env EVENT_SCHEDULE;
               embed = build_embed now events_info
           in case edit_reply env of
                Inr _ \<Rightarrow> (s1, e1 @ [Edit held embed])
              | Inl (NotFound t) \<Rightarrow>
                  (let (s2, e2) = setup_embed_message cfg (recovery env) s1 in
                   (s2, e1 @ [Edit held embed,
                              Print ''Embed message was deleted. Attempting to recreate it...'',
                              Loop_stop] @ e2))
              | Inl e \<Rightarrow>
                  (s1, e1 @ [Edit held embed, Print (''Failed to edit embed: '' @ failure_text e)])))"

section \<open>on_ready and the events of the process\<close>

record ready_env =
  user_name :: string
  guild_found :: bool
  setup_answers :: setup_env
  scheduler_running :: bool

definition on_ready :: "config \<Rightarrow> ready_env \<Rightarrow> bot_state \<Rightarrow> bot_state \<times> effect list" where
  "on_ready cfg env s =
     (let greeting =
            [Print (robot @ '' Logged in as '' @ user_name env @ '' (ID: ''
                    @ str_int (client_user_id (setup_answers env)) @ '')''),
             Print ''------'']
      in if \<not> guild_found env then
           (s, greeting
               @ [Print (''FATAL: Bot is not in the server with ID '' @ str_int (GUILD_ID cfg)
                         @ ''. Please invite it first.''),
                  Close])
         else
           (let (s1, e1) = setup_embed_message cfg (setup_answers env) s in
            (s1, greeting @ e1
                 @ (if \<not> scheduler_running env then
                      map (\<lambda>(event_name, schedule). Add_job (''ping_for_'' @ event_name) schedule)
                        EVENT_SCHEDULE
                      @ [Scheduler_start,
                         Print (calendar @ '' APScheduler started and jobs are scheduled.''),
                         Print (bell @ '' Monitoring '' @ str_nat (length EVENT_SCHEDULE)
                                @ '' events for notifications.'')]
                    else []))))"

datatype event = Ready ready_env | Tick tick_env | Fire string occurrence

fun step :: "config \<Rightarrow> event \<Rightarrow> bot_state \<Rightarrow> bot_state \<times> effect list" where
  "step cfg (Ready env) s = on_ready cfg env s"
| "step cfg (Tick env) s = update_embed cfg env s"
| "step cfg (Fire event_name occ) s = fire cfg event_name occ s"

text \<open>
  The history of a run: for each event in turn, the state it started from and the
  effects it had.
\<close>

fun trace :: "config \<Rightarrow> bot_state \<Rightarrow> event list \<Rightarrow> (bot_state \<times> effect list) list" where
  "trace cfg s [] = []"
| "trace cfg s (ev # evs) = (s, snd (step cfg ev s)) # trace cfg (fst (step cfg ev s)) evs"

definition creates_artifact :: "effect list \<Rightarrow> bool" where
  "creates_artifact effs \<longleftrightarrow> list_ex (\<lambda>e. case e of Send_embed x \<Rightarrow> True | _ \<Rightarrow> False) effs"

section \<open>Startup\<close>

text \<open>
  The module body. \<open>getenv\<close> is \<open>os.getenv\<close> after \<open>load_dotenv()\<close>; \<open>parse\<close> is
  Python's \<open>int\<close> on a string, \<open>None\<close> where it raises \<open>ValueError\<close>; \<open>int(None)\<close>
  raises \<open>TypeError\<close>. Lines 12 to 15 are outside every \<open>try\<close>.
\<close>

datatype exn = TypeError | ValueError

definition int_of_env :: "(string \<Rightarrow> int option) \<Rightarrow> string option \<Rightarrow> exn + int" where
  "int_of_env parse v =
     (case v of
        None \<Rightarrow> Inl TypeError
      | Some text \<Rightarrow> (case parse text of None \<Rightarrow> Inl ValueError | Some i \<Rightarrow> Inr i))"

definition load_config ::
  "(string \<Rightarrow> string option) \<Rightarrow> (string \<Rightarrow> int option) \<Rightarrow> exn + config" where
  "load_config getenv parse =
     (let token = getenv ''BOT_TOKEN'' in
      case int_of_env parse (getenv ''GUILD_ID'') of
        Inl e \<Rightarrow> Inl e
      | Inr guild \<Rightarrow>
          (case int_of_env parse (getenv ''CHANNEL_ID'') of
             Inl e \<Rightarrow> Inl e
           | Inr channel \<Rightarrow>
               (case int_of_env parse (getenv ''NOTIFIER_ROLE_ID'') of
                  Inl e \<Rightarrow> Inl e
                | Inr role \<Rightarrow>
                    Inr \<lparr>BOT_TOKEN = token, GUILD_ID = guild, CHANNEL_ID = channel,
                         NOTIFIER_ROLE_ID = role\<rparr>)))"

text \<open>
  How \<open>client.run(BOT_TOKEN)\<close> ends, and how the process ends: with an uncaught
  exception and its traceback, or after the effects listed.
\<close>

datatype run_result = Returned | LoginFailure | Run_failed string

datatype outcome = Uncaught exn | Finished "effect list"

definition fatal_config_line :: string where
  "fatal_config_line = ''FATAL: Please fill in all the configuration values in the .env file.''"

definition main ::
  "(string \<Rightarrow> string option) \<Rightarrow> (string \<Rightarrow> int option) \<Rightarrow> run_result \<Rightarrow> outcome" where
  "main getenv parse run_reply =
     (case load_config getenv parse of
        Inl e \<Rightarrow> Uncaught e
      | Inr cfg \<Rightarrow>
          (case BOT_TOKEN cfg of
             None \<Rightarrow> Finished [Print fatal_config_line]
           | Some token \<Rightarrow>
               if token = [] \<or> GUILD_ID cfg = 0 \<or> CHANNEL_ID cfg = 0 \<or> NOTIFIER_ROLE_ID cfg = 0
               then Finished [Print fatal_config_line]
               else
                 (case run_reply of
                    Returned \<Rightarrow> Finished [Run token]
                  | LoginFailure \<Rightarrow>
                      Finished [Run token,
                                Print ''FATAL: The bot token is invalid. Please check your token.'']
                  | Run_failed t \<Rightarrow>
                      Finished [Run token,
                                Print (''An error occurred while starting the bot: '' @ t)])))"

section \<open>The classification as the specification words it\<close>



section \<open>Sample inputs\<close>


definition sample_config :: config where
  "sample_config =
     \<lparr>BOT_TOKEN = Some ''token'', GUILD_ID = 1, CHANNEL_ID = 2, NOTIFIER_ROLE_ID = 3\<rparr>"

definition sample_message :: "int \<Rightarrow> message" where
  "sample_message i = \<lparr>message_id = i, author_id = 7, embed_titles = []\<rparr>"

definition sample_occurrence :: occurrence where
  "sample_occurrence =
     \<lparr>fire_time = 0, send_reply = Inr (sample_message 10), clock_after_send = usec\<rparr>"

definition token_only :: "string \<Rightarrow> string option" where
  "token_only = [''BOT_TOKEN'' \<mapsto> ''token'']"

definition schedule_message :: "int \<Rightarrow> message" where
  "schedule_message i = \<lparr>message_id = i, author_id = 7, embed_titles = [Some schedule_title]\<rparr>"

definition sample_crontab :: "string \<Rightarrow> trigger" where
  "sample_crontab cron =
     (case map_of [(''0 * * * *'', 0), (''10 * * * *'', 10), (''15 * * * *'', 15),
                   (''20 * * * *'', 20), (''30 * * * *'', 30), (''40 * * * *'', 40),
                   (''50 * * * *'', 50)] cron of
        Some m \<Rightarrow> hourly m
      | None \<Rightarrow> (\<lambda>t. None))"

definition empty_channel :: setup_env where
  "empty_channel =
     \<lparr>channel_found = True, history_reply = Inr [], client_user_id = 7,
      create_reply = Inr (schedule_message 11), loop_is_running = True\<rparr>"

definition deleted_tick :: tick_env where
  "deleted_tick =
     \<lparr>cleanup_now = minutes 1, delete_reply = (\<lambda>m. Inr ()), tick_now = minutes 1,
      from_crontab = sample_crontab, next_now = (\<lambda>n. minutes 1), prev_now = (\<lambda>n. minutes 1),
      edit_reply = Inl (NotFound ''404 Not Found''), recovery = empty_channel\<rparr>"

definition holding :: "message \<Rightarrow> bot_state" where
  "holding m = \<lparr>persistent_message = Some m, active_ping_messages = []\<rparr>"

definition first_ready :: ready_env where
  "first_ready =
     \<lparr>user_name = ''notifier'', guild_found = True,
      setup_answers = empty_channel\<lparr>loop_is_running := False\<rparr>, scheduler_running = False\<rparr>"

text \<open>The number of entries that the table of pending pings holds for a name.\<close>

definition entries_for :: "string \<Rightarrow> (string \<times> pending_ping) list \<Rightarrow> nat" where
  "entries_for event_name pings = length (filter (\<lambda>p. fst p = event_name) pings)"

section \<open>Properties of format_countdown\<close>

lemma py_floordiv_whole:
  assumes "0 \<le> s" "0 < k"
  shows "py_int (py_floordiv s (of_int k)) = \<lfloor>s\<rfloor> div k"
proof -
  have "0 \<le> s / of_int k" using assms by simp
  then have "py_int (py_floordiv s (of_int k)) = \<lfloor>s / of_int k\<rfloor>"
    by (simp add: py_int_def py_floordiv_def)
  also have "\<dots> = \<lfloor>s\<rfloor> div k"
    using assms by (simp add: floor_divide_real_eq_div)
  finally show ?thesis .
qed

lemma py_mod_whole:
  assumes "0 < k"
  shows "\<lfloor>py_mod s (of_int k)\<rfloor> = \<lfloor>s\<rfloor> mod k"
proof -
  have "\<lfloor>s / of_int k\<rfloor> = \<lfloor>s\<rfloor> div k"
    using assms by (simp add: floor_divide_real_eq_div)
  then have "py_mod s (of_int k) = s - of_int (k * (\<lfloor>s\<rfloor> div k))"
    by (simp add: py_mod_def)
  then have "\<lfloor>py_mod s (of_int k)\<rfloor> = \<lfloor>s\<rfloor> - k * (\<lfloor>s\<rfloor> div k)"
    by (simp only: floor_diff_of_int)
  then show ?thesis by (simp add: minus_mult_div_eq_mod)
qed

lemma py_mod_nonneg:
  assumes "0 < k"
  shows "0 \<le> py_mod s (of_int k)"
proof -
  have k: "0 < real_of_int k" using assms by simp
  have "of_int \<lfloor>s / of_int k\<rfloor> \<le> s / real_of_int k" by (rule of_int_floor_le)
  then have "real_of_int k * of_int \<lfloor>s / of_int k\<rfloor> \<le> real_of_int k * (s / real_of_int k)"
    using k by (rule mult_left_mono [OF _ less_imp_le])
  also have "\<dots> = s" using k by simp
  finally show ?thesis by (simp add: py_mod_def)
qed

lemma py_mod_secs:
  assumes "0 < k"
  shows "py_int (py_mod s (of_int k)) = \<lfloor>s\<rfloor> mod k"
  using py_mod_nonneg [OF assms, of s] py_mod_whole [OF assms, of s]
  by (simp add: py_int_def)

lemma py_mod_floordiv:
  assumes "0 < k" "0 < j"
  shows "py_int (py_floordiv (py_mod s (of_int k)) (of_int j)) = \<lfloor>s\<rfloor> mod k div j"
  using py_floordiv_whole [OF py_mod_nonneg [OF assms(1), of s] assms(2)]
    py_mod_whole [OF assms(1), of s]
  by simp

text \<open>
  Claim C10. For every real input \<open>s\<close>, \<open>format_countdown s\<close> is ``0s'' when \<open>s \<le> 0\<close>,
  the whole seconds followed by ``s'' when \<open>0 < s < 60\<close>, minutes and seconds when
  \<open>60 \<le> s < 3600\<close>, and hours, minutes and seconds from 3600 on, every component cut
  to an integer and never rounded; and the four sample values of the specification.
\<close>

theorem format_countdown_spec:
  "format_countdown s = countdown_spec s
   \<and> format_countdown 0 = ''0s''
   \<and> format_countdown 45 = ''45s''
   \<and> format_countdown 125 = ''2m 5s''
   \<and> format_countdown 3725 = ''1h 2m 5s''"
proof -
  have gen: "format_countdown t = countdown_spec t" for t
  proof -
    have a: "py_int (py_floordiv t 3600) = \<lfloor>t\<rfloor> div 3600" if "0 \<le> t"
      using py_floordiv_whole [OF that, of 3600] by simp
    have b: "py_int (py_floordiv t 60) = \<lfloor>t\<rfloor> div 60" if "0 \<le> t"
      using py_floordiv_whole [OF that, of 60] by simp
    have c: "py_int (py_mod t 60) = \<lfloor>t\<rfloor> mod 60"
      using py_mod_secs [of 60 t] by simp
    have d: "py_int (py_floordiv (py_mod t 3600) 60) = \<lfloor>t\<rfloor> mod 3600 div 60"
      using py_mod_floordiv [of 3600 60 t] by simp
    have e: "py_int t = \<lfloor>t\<rfloor>" if "0 \<le> t"
      using that by (simp add: py_int_def)
    show ?thesis
      by (simp add: format_countdown_def countdown_spec_def Let_def a b c d e)
  qed
  have s45: "countdown_spec 45 = ''45s''"
    by (simp add: countdown_spec_def str_int_def str_nat.simps digit_def)
  have s125: "countdown_spec 125 = ''2m 5s''"
    by (simp add: countdown_spec_def str_int_def str_nat.simps digit_def)
  have s3725: "countdown_spec 3725 = ''1h 2m 5s''"
    by (simp add: countdown_spec_def str_int_def str_nat.simps digit_def)
  have s0: "format_countdown 0 = ''0s''"
    by (simp add: format_countdown_def)
  show ?thesis
    using gen [of s] gen [of 45] gen [of 125] gen [of 3725] s0 s45 s125 s3725 by simp
qed

section \<open>Properties of the RecurrenceClock\<close>

lemma total_seconds_le_7200: "total_seconds d \<le> 7200 \<longleftrightarrow> d \<le> minutes 120"
  by (simp add: total_seconds_def minutes_def usec_def)

text \<open>
  The scan returns the answer to the first probe, in the order of the list, that passes
  the test, and \<open>None\<close> when no answer passes.
\<close>

lemma previous_run_scan_first:
  assumes "sorted ks"
  shows "case previous_run_scan trigger now ks of
           None \<Rightarrow> (\<forall>k\<in>set ks. \<not> accepted now (trigger (now - minutes k)))
         | Some t \<Rightarrow> (\<exists>k\<in>set ks. trigger (now - minutes k) = Some t \<and> accepted now (Some t)
                      \<and> (\<forall>j\<in>set ks. j < k \<longrightarrow> \<not> accepted now (trigger (now - minutes j))))"
  using assms
proof (induction ks)
  case Nil
  then show ?case by simp
next
  case (Cons k ks)
  then have IH: "case previous_run_scan trigger now ks of
           None \<Rightarrow> (\<forall>k\<in>set ks. \<not> accepted now (trigger (now - minutes k)))
         | Some t \<Rightarrow> (\<exists>k\<in>set ks. trigger (now - minutes k) = Some t \<and> accepted now (Some t)
                      \<and> (\<forall>j\<in>set ks. j < k \<longrightarrow> \<not> accepted now (trigger (now - minutes j))))"
    and le: "\<forall>j\<in>set ks. k \<le> j" by simp_all
  show ?case
  proof (cases "accepted now (trigger (now - minutes k))")
    case True
    then obtain t where t: "trigger (now - minutes k) = Some t" "accepted now (Some t)"
      by (auto simp: accepted_def split: option.splits)
    then have "previous_run_scan trigger now (k # ks) = Some t"
      by (simp add: accepted_def)
    moreover have "\<forall>j\<in>set (k # ks). j < k \<longrightarrow> \<not> accepted now (trigger (now - minutes j))"
      using le by auto
    ultimately show ?thesis using t by auto
  next
    case False
    then have eq: "previous_run_scan trigger now (k # ks) = previous_run_scan trigger now ks"
      by (auto simp: accepted_def split: option.splits)
    show ?thesis
      unfolding eq using IH False by (auto split: option.splits)
  qed
qed

lemma get_previous_run_time_first:
  "case get_previous_run_time trigger now of
     None \<Rightarrow> (\<forall>k. 1 \<le> k \<and> k \<le> 120 \<longrightarrow> \<not> accepted now (trigger (now - minutes k)))
   | Some t \<Rightarrow> (\<exists>k. 1 \<le> k \<and> k \<le> 120 \<and> trigger (now - minutes k) = Some t \<and> accepted now (Some t)
                \<and> (\<forall>j. 1 \<le> j \<and> j < k \<longrightarrow> \<not> accepted now (trigger (now - minutes j))))"
  using previous_run_scan_first [where ks = "[1..120]" and trigger = trigger and now = now]
  unfolding get_previous_run_time_def
  by (auto split: option.splits)

lemma answers_NoneD:
  assumes "answers_at_or_after fires trigger" "trigger t = None" "fires u"
  shows "u < t"
proof -
  have "case trigger t of None \<Rightarrow> (\<forall>u. fires u \<longrightarrow> u < t)
        | Some n \<Rightarrow> fires n \<and> t \<le> n \<and> (\<forall>u. fires u \<and> t \<le> u \<longrightarrow> n \<le> u)"
    using assms(1) unfolding answers_at_or_after_def by (rule spec)
  with assms(2,3) show ?thesis by simp
qed

lemma answers_SomeD:
  assumes "answers_at_or_after fires trigger" "trigger t = Some n"
  shows "fires n" and "t \<le> n" and "fires u \<Longrightarrow> t \<le> u \<Longrightarrow> n \<le> u"
proof -
  have "case trigger t of None \<Rightarrow> (\<forall>u. fires u \<longrightarrow> u < t)
        | Some n \<Rightarrow> fires n \<and> t \<le> n \<and> (\<forall>u. fires u \<and> t \<le> u \<longrightarrow> n \<le> u)"
    using assms(1) unfolding answers_at_or_after_def by (rule spec)
  with assms(2) have *: "fires n \<and> t \<le> n \<and> (\<forall>u. fires u \<and> t \<le> u \<longrightarrow> n \<le> u)" by simp
  from * show "fires n" and "t \<le> n" by simp_all
  from * show "fires u \<Longrightarrow> t \<le> u \<Longrightarrow> n \<le> u" by simp
qed

lemma rejected_none_at_or_after:
  assumes c: "answers_at_or_after fires trigger"
    and rej: "\<not> accepted now (trigger p)"
    and near: "now - minutes 120 \<le> p"
    and u: "fires u" "p \<le> u"
  shows "now < u"
proof (cases "trigger p")
  case None
  from answers_NoneD [OF c None u(1)] u(2) show ?thesis by simp
next
  case (Some n)
  have n: "p \<le> n" "n \<le> u"
    using answers_SomeD(2,3) [OF c Some] u by simp_all
  from rej Some have "now < n \<or> minutes 120 < now - n"
    by (auto simp: accepted_def total_seconds_le_7200)
  with n(1) near have "now < n" by auto
  with n(2) show ?thesis by simp
qed

lemma whole_minutes_apart:
  assumes "whole_minutes fires" "fires t" "fires u" "t < u"
  shows "t + minutes 1 \<le> u"
proof -
  have "t mod minutes 1 = 0" "u mod minutes 1 = 0"
    using assms by (auto simp: whole_minutes_def)
  then have "minutes 1 dvd u - t" by (simp add: dvd_diff mod_eq_0_iff_dvd)
  moreover have "0 < u - t" using assms by simp
  ultimately have "minutes 1 \<le> u - t" by (rule zdvd_imp_le)
  then show ?thesis by simp
qed

lemma minutes_diff: "minutes a - minutes b = minutes (a - b)"
  by (simp add: minutes_def algebra_simps)

lemma minutes_mono: "a \<le> b \<Longrightarrow> minutes a \<le> minutes b"
  by (simp add: minutes_def usec_def)

text \<open>
  With a library that answers with the least fire time at or after the probe, and a rule
  that fires on whole minutes: the result is a fire time of the last 7200 seconds, and
  no later fire time is at most \<open>now\<close>, unless \<open>now\<close> and the minute before it are both
  fire times, when the earlier one is returned; and \<open>None\<close> means that the rule did not
  fire in the last 7200 seconds.
\<close>

lemma get_previous_run_time_most_recent:
  assumes c: "answers_at_or_after fires trigger" and w: "whole_minutes fires"
  shows "case get_previous_run_time trigger now of
           None \<Rightarrow> (\<forall>u. fires u \<longrightarrow> \<not> (now - minutes 120 \<le> u \<and> u \<le> now))
         | Some t \<Rightarrow> fires t \<and> t \<le> now \<and> now - t \<le> minutes 120
              \<and> (\<forall>u. fires u \<and> u \<le> now \<longrightarrow> u \<le> t \<or> (u = now \<and> t = now - minutes 1))"
proof (cases "get_previous_run_time trigger now")
  case None
  with get_previous_run_time_first [where trigger = trigger and now = now]
  have "\<not> accepted now (trigger (now - minutes 120))" by simp
  then have "\<forall>u. fires u \<and> now - minutes 120 \<le> u \<longrightarrow> now < u"
    using rejected_none_at_or_after [OF c, of now "now - minutes 120"] by simp
  with None show ?thesis by auto
next
  case (Some t)
  with get_previous_run_time_first [where trigger = trigger and now = now]
  obtain k where k: "1 \<le> k" "k \<le> 120" "trigger (now - minutes k) = Some t"
    "accepted now (Some t)"
    "\<forall>j. 1 \<le> j \<and> j < k \<longrightarrow> \<not> accepted now (trigger (now - minutes j))"
    by auto
  have t: "fires t" "now - minutes k \<le> t"
    using answers_SomeD(1,2) [OF c k(3)] by simp_all
  from k(4) have acc: "t \<le> now" "now - t \<le> minutes 120"
    by (simp_all add: accepted_def total_seconds_le_7200)
  have "u \<le> t \<or> (u = now \<and> t = now - minutes 1)" if u: "fires u" "u \<le> now" for u
  proof (cases "u \<le> t")
    case True
    then show ?thesis by simp
  next
    case False
    then have far: "t + minutes 1 \<le> u"
      using whole_minutes_apart [OF w t(1) u(1)] by simp
    show ?thesis
    proof (cases "k = 1")
      case True
      with t(2) far u(2) show ?thesis by simp
    next
      case False
      with k have j: "1 \<le> k - 1" "k - 1 < k" by simp_all
      then have rej: "\<not> accepted now (trigger (now - minutes (k - 1)))"
        using k(5) by blast
      have "minutes (k - 1) \<le> minutes 120"
        using k(2) by (intro minutes_mono) simp
      then have near: "now - minutes 120 \<le> now - minutes (k - 1)" by simp
      have "minutes k - minutes 1 = minutes (k - 1)" by (rule minutes_diff)
      with far t(2) have "now - minutes (k - 1) \<le> u" by simp
      with rejected_none_at_or_after [OF c rej near u(1)] u(2) show ?thesis by simp
    qed
  qed
  with Some t(1) acc show ?thesis by simp
qed

text \<open>
  Under the same conditions a fire time is its own most recent run time, provided the
  rule did not fire one minute before it.
\<close>

lemma get_previous_run_time_fixed:
  assumes c: "answers_at_or_after fires trigger" and w: "whole_minutes fires"
    and t: "fires t" and gap: "\<not> fires (t - minutes 1)"
  shows "get_previous_run_time trigger t = Some t"
proof -
  have "\<exists>n. trigger (t - minutes 1) = Some n"
  proof (rule ccontr)
    assume "\<not> ?thesis"
    then have "trigger (t - minutes 1) = None" by simp
    from answers_NoneD [OF c this t] show False by (simp add: minutes_def usec_def)
  qed
  then obtain n where n: "trigger (t - minutes 1) = Some n" ..
  have f: "fires n" "t - minutes 1 \<le> n"
    using answers_SomeD(1,2) [OF c n] by simp_all
  have "n \<le> t" using answers_SomeD(3) [OF c n t] by (simp add: minutes_def usec_def)
  moreover have "\<not> n < t"
  proof
    assume "n < t"
    then have "n + minutes 1 \<le> t" by (rule whole_minutes_apart [OF w f(1) t])
    with f(2) have "n = t - minutes 1" by simp
    with f(1) gap show False by simp
  qed
  ultimately have "n = t" by simp
  with n have "trigger (t - minutes 1) = Some t" by simp
  moreover have "[1..120] = 1 # [2..120]" by (simp add: upto_rec1)
  ultimately show ?thesis
    by (simp add: get_previous_run_time_def total_seconds_def)
qed

text \<open>The periodic rules meet these conditions.\<close>

lemma periodic_answers:
  assumes "0 < period" "0 \<le> offset" "offset < period"
  shows "answers_at_or_after (fires_every period offset) (next_at_or_after period offset)"
proof -
  have "fires_every period offset (t + (offset - t) mod period)" for t
    using assms by (simp add: fires_every_def mod_simps)
  moreover have "t \<le> t + (offset - t) mod period" for t
    using assms by simp
  moreover have "t + (offset - t) mod period \<le> u"
    if "fires_every period offset u" "t \<le> u" for t u
  proof -
    have "(u - t) mod period = (offset - t) mod period"
      using that(1) by (metis fires_every_def mod_diff_left_eq)
    moreover have "(u - t) mod period \<le> u - t"
      using that(2) assms(1) by (simp add: zmod_le_nonneg_dividend)
    ultimately show ?thesis by simp
  qed
  ultimately show ?thesis
    by (simp add: answers_at_or_after_def next_at_or_after_def)
qed

lemma periodic_whole_minutes:
  assumes "minutes 1 dvd period" "minutes 1 dvd offset"
  shows "whole_minutes (fires_every period offset)"
  using assms
  by (metis dvd_mod_iff fires_every_def mod_eq_0_iff_dvd whole_minutes_def)

text \<open>
  Claim C2. \<open>get_previous_run_time\<close> is to return the largest fire time that is at most
  \<open>now\<close> and at most 7200 seconds before it. For the rule \<open>* * * * *\<close> read at
  00:01:00.000000 the first probe, one minute back, is itself a fire time and is
  returned, although \<open>now\<close> is a later fire time.
\<close>

theorem get_previous_run_time_misses_now:
  "fires_every (minutes 1) 0 (minutes 1)
   \<and> fires_every (minutes 1) 0 0
   \<and> get_previous_run_time every_minute (minutes 1) = Some 0"
  by (simp add: fires_every_def get_previous_run_time_def every_minute_def
      next_at_or_after_def minutes_def usec_def total_seconds_def upto_rec1)

text \<open>
  Were the probes answered strictly, as the specification describes them, the largest
  fire time of the window would be missed elsewhere: for a rule that fires every three
  hours, read exactly 7200 seconds after a fire time, no probe finds that fire time.
\<close>

lemma get_previous_run_time_misses_bound:
  "fires_every (minutes 180) 0 0
   \<and> total_seconds (minutes 120 - 0) \<le> 7200
   \<and> get_previous_run_time (next_after (minutes 180) 0) (minutes 120) = None"
proof -
  have "get_previous_run_time (next_after (minutes 180) 0) (minutes 120) = None"
    by code_simp
  then show ?thesis
    by (simp add: fires_every_def total_seconds_def minutes_def usec_def)
qed

text \<open>
  Claim C3, as stated: the next run time is strictly after \<open>now\<close>, also when \<open>now\<close>
  matches the rule. For the rule \<open>0 * * * *\<close> read at 01:00:00.000000 the answer is
  that same instant.
\<close>

theorem get_next_run_time_returns_now:
  "get_next_run_time (hourly 0) (minutes 60) = Some (minutes 60)"
  by (simp add: get_next_run_time_def hourly_def next_at_or_after_def minutes_def usec_def)

text \<open>
  Claim C3, amended. For every rule and every \<open>now\<close>, the next run time is the least
  fire time at or after \<open>now\<close>: it is \<open>now\<close> itself when \<open>now\<close> is a fire time,
  otherwise it is later than \<open>now\<close>; no fire time lies between \<open>now\<close> and the
  result; and the result is not \<open>None\<close> as long as the rule fires at or after \<open>now\<close>.
\<close>

theorem get_next_run_time_at_or_after:
  assumes "answers_at_or_after fires trigger"
  shows "(fires now \<longrightarrow> get_next_run_time trigger now = Some now)
    \<and> (\<forall>n. get_next_run_time trigger now = Some n \<longrightarrow>
           fires n \<and> now \<le> n \<and> (fires now \<or> now < n)
           \<and> \<not> (\<exists>u. fires u \<and> now \<le> u \<and> u < n))
    \<and> ((\<exists>u. fires u \<and> now \<le> u) \<longrightarrow> get_next_run_time trigger now \<noteq> None)"
proof (intro conjI allI impI)
  assume f: "fires now"
  show "get_next_run_time trigger now = Some now"
  proof (cases "trigger now")
    case None
    from answers_NoneD [OF assms None f] show ?thesis by simp
  next
    case (Some n)
    have "now \<le> n" "n \<le> now"
      using answers_SomeD(2,3) [OF assms Some] f by simp_all
    with Some show ?thesis by (simp add: get_next_run_time_def)
  qed
next
  fix n assume "get_next_run_time trigger now = Some n"
  then have n: "trigger now = Some n" by (simp add: get_next_run_time_def)
  show "fires n" by (rule answers_SomeD(1) [OF assms n])
  show le: "now \<le> n" by (rule answers_SomeD(2) [OF assms n])
  show "fires now \<or> now < n"
    using le answers_SomeD(1) [OF assms n] by (cases "now = n") auto
  show "\<not> (\<exists>u. fires u \<and> now \<le> u \<and> u < n)"
    using answers_SomeD(3) [OF assms n] by force
next
  assume "\<exists>u. fires u \<and> now \<le> u"
  then obtain u where u: "fires u" "now \<le> u" by blast
  show "get_next_run_time trigger now \<noteq> None"
  proof
    assume "get_next_run_time trigger now = None"
    then have "trigger now = None" by (simp add: get_next_run_time_def)
    from answers_NoneD [OF assms this u(1)] u(2) show False by simp
  qed
qed

theorem get_next_run_time_at_or_after_witness:
  "answers_at_or_after (fires_every (minutes 60) 0) (hourly 0)
   \<and> fires_every (minutes 60) 0 (minutes 60)
   \<and> get_next_run_time (hourly 0) (minutes 60) = Some (minutes 60)
   \<and> get_next_run_time (hourly 0) (minutes 60 + 1) = Some (minutes 120)"
proof -
  have a: "answers_at_or_after (fires_every (minutes 60) 0) (hourly 0)"
    unfolding hourly_def using periodic_answers [of "minutes 60" 0]
    by (simp add: minutes_def usec_def)
  have f: "fires_every (minutes 60) 0 (minutes 60)"
    by (simp add: fires_every_def)
  have l: "get_next_run_time (hourly 0) (minutes 60 + 1) = Some (minutes 120)"
    by (simp add: get_next_run_time_def hourly_def next_at_or_after_def minutes_def usec_def)
  from get_next_run_time_at_or_after [OF a, of "minutes 60"] f
  have "get_next_run_time (hourly 0) (minutes 60) = Some (minutes 60)" by simp
  with a f l show ?thesis by simp
qed

text \<open>
  Claim C7. Feeding the result of \<open>get_previous_run_time\<close> back as \<open>now\<close> is to give
  the same instant. For the rule \<open>* * * * *\<close> (period 60 seconds) read at 00:01:30 the
  result is 00:01:00, and read at 00:01:00 it is 00:00:00.
\<close>

theorem get_previous_run_time_not_idempotent:
  "get_previous_run_time every_minute (minutes 1 + 30 * usec) = Some (minutes 1)
   \<and> get_previous_run_time every_minute (minutes 1) = Some 0"
  by (simp add: get_previous_run_time_def every_minute_def
      next_at_or_after_def minutes_def usec_def total_seconds_def upto_rec1)

section \<open>Properties of the classification and of the rendering\<close>







text \<open>The embed that a tick hands to \<open>edit\<close> is the one built from the collected events.\<close>

lemma update_embed_edits_built_embed:
  assumes "persistent_message s = Some held"
  shows "Edit held (build_embed (tick_now env) (collect_events env EVENT_SCHEDULE))
           \<in> set (snd (update_embed cfg env s))"
proof -
  obtain s1 e1 where c: "cleanup_ping_messages (cleanup_now env) (delete_reply env) s = (s1, e1)"
    by (cases "cleanup_ping_messages (cleanup_now env) (delete_reply env) s")
  obtain s2 e2 where r: "setup_embed_message cfg (recovery env) s1 = (s2, e2)"
    by (cases "setup_embed_message cfg (recovery env) s1")
  show ?thesis
  proof (cases "edit_reply env")
    case (Inr u)
    then show ?thesis by (simp add: update_embed_def Let_def assms c)
  next
    case (Inl e)
    then show ?thesis
      by (cases e) (simp_all add: update_embed_def Let_def assms c r)
  qed
qed

text \<open>
  Claim C9. The sections of the embed built on a tick are those of the active events, in
  ascending order of remaining time, followed by those of the upcoming events, in
  ascending order of next run time.
\<close>

theorem build_embed_sections_ordered:
  "\<exists>active upcoming.
     embed_fields (build_embed now events) =
       map active_field active @ map (upcoming_field now (active = [])) (enumerate 0 upcoming)
     \<and> sorted (map snd active)
     \<and> sorted (map next_time upcoming)
     \<and> mset active = mset (fst (partition_events now events))
     \<and> mset upcoming = mset (snd (partition_events now events))"
proof -
  obtain a u where p: "partition_events now events = (a, u)" by (cases "partition_events now events")
  have "embed_fields (build_embed now events) =
       map active_field (sort_key snd a)
       @ map (upcoming_field now (sort_key snd a = [])) (enumerate 0 (sort_key next_time u))"
    by (simp add: build_embed_def p Let_def)
  moreover have "sorted (map snd (sort_key snd a))" by (rule sorted_sort_key)
  moreover have "sorted (map next_time (sort_key next_time u))" by (rule sorted_sort_key)
  moreover have "mset (sort_key snd a) = mset a" "mset (sort_key next_time u) = mset u"
    by simp_all
  ultimately have
    "embed_fields (build_embed now events) =
       map active_field (sort_key snd a)
       @ map (upcoming_field now (sort_key snd a = [])) (enumerate 0 (sort_key next_time u))
     \<and> sorted (map snd (sort_key snd a))
     \<and> sorted (map next_time (sort_key next_time u))
     \<and> mset (sort_key snd a) = mset (fst (partition_events now events))
     \<and> mset (sort_key next_time u) = mset (snd (partition_events now events))"
    by (simp add: p)
  then show ?thesis by blast
qed

section \<open>Properties of send_ping\<close>

lemma entries_for_distinct:
  assumes "distinct (map fst pings)" "map_of pings k = Some v"
  shows "entries_for k pings = 1"
  using assms
proof (induction pings)
  case Nil
  then show ?case by simp
next
  case (Cons p ps)
  show ?case
  proof (cases "fst p = k")
    case True
    with Cons.prems(1) have "k \<notin> fst ` set ps" by auto
    then have "filter (\<lambda>p. fst p = k) ps = []" by (auto simp: filter_empty_conv)
    with True show ?thesis by (simp add: entries_for_def)
  next
    case False
    with Cons.prems have "map_of ps k = Some v" "distinct (map fst ps)"
      by (cases p, auto)+
    with Cons.IH False show ?thesis by (simp add: entries_for_def)
  qed
qed

text \<open>
  Claim C6, as stated: after a successful send the pending ping is to be deleted 120
  seconds after the fire time. For an occurrence that fires at 00:00:00 and whose send
  has returned at 00:00:01 the entry is due at 00:02:01, not at 00:02:00.
\<close>

theorem fire_delete_time_not_from_fire_time:
  "map_of (active_ping_messages (fst (fire sample_config ''Easy Dungeon'' sample_occurrence initial_state)))
     ''Easy Dungeon''
   = Some \<lparr>ping_message = sample_message 10, delete_time = 121 * usec\<rparr>
   \<and> fire_time sample_occurrence + minutes 2 = 120 * usec
   \<and> 121 * usec \<noteq> fire_time sample_occurrence + minutes 2"
  by (simp add: fire_def send_ping_def sample_occurrence_def initial_state_def minutes_def usec_def)

text \<open>
  Claim C6, amended. For every notification fire: if the send succeeds, the table holds
  exactly one pending ping for that event name afterwards, with the sent message and
  with \<open>delete_time\<close> 120 seconds after the clock reading taken once the send has
  returned, which is not earlier than 120 seconds after the fire time; if the send fails,
  with \<open>Forbidden\<close> or with anything else, the state is unchanged, the send was tried
  once and one line was printed.
\<close>

theorem fire_registers_pending_ping:
  "(\<forall>sent. send_reply occ = Inr sent \<longrightarrow>
      active_ping_messages (fst (fire cfg event_name occ s)) =
        AList.update event_name
          \<lparr>ping_message = sent, delete_time = clock_after_send occ + minutes 2\<rparr>
          (active_ping_messages s)
      \<and> map_of (active_ping_messages (fst (fire cfg event_name occ s))) event_name =
          Some \<lparr>ping_message = sent, delete_time = clock_after_send occ + minutes 2\<rparr>
      \<and> (distinct (map fst (active_ping_messages s)) \<longrightarrow>
            distinct (map fst (active_ping_messages (fst (fire cfg event_name occ s))))
            \<and> entries_for event_name (active_ping_messages (fst (fire cfg event_name occ s))) = 1)
      \<and> (fire_time occ \<le> clock_after_send occ \<longrightarrow>
            (\<forall>p. map_of (active_ping_messages (fst (fire cfg event_name occ s))) event_name = Some p
                 \<longrightarrow> fire_time occ + minutes 2 \<le> delete_time p)))
   \<and> (\<forall>e. send_reply occ = Inl e \<longrightarrow>
        fst (fire cfg event_name occ s) = s
        \<and> (\<exists>text line. snd (fire cfg event_name occ s) = [Send_text text, Print line]))"
proof (intro conjI allI impI)
  fix sent assume r: "send_reply occ = Inr sent"
  show u: "active_ping_messages (fst (fire cfg event_name occ s)) =
        AList.update event_name
          \<lparr>ping_message = sent, delete_time = clock_after_send occ + minutes 2\<rparr>
          (active_ping_messages s)"
    using r by (simp add: fire_def send_ping_def)
  show m: "map_of (active_ping_messages (fst (fire cfg event_name occ s))) event_name =
          Some \<lparr>ping_message = sent, delete_time = clock_after_send occ + minutes 2\<rparr>"
    unfolding u by (simp add: update_conv')
  {
    assume d: "distinct (map fst (active_ping_messages s))"
    show d': "distinct (map fst (active_ping_messages (fst (fire cfg event_name occ s))))"
      unfolding u using d by (rule distinct_update)
    show "entries_for event_name (active_ping_messages (fst (fire cfg event_name occ s))) = 1"
      using d' m by (rule entries_for_distinct)
  }
  {
    fix p
    assume "fire_time occ \<le> clock_after_send occ"
      and "map_of (active_ping_messages (fst (fire cfg event_name occ s))) event_name = Some p"
    with m show "fire_time occ + minutes 2 \<le> delete_time p" by auto
  }
next
  fix e assume r: "send_reply occ = Inl e"
  show "fst (fire cfg event_name occ s) = s"
    using r by (cases e) (simp_all add: fire_def send_ping_def)
  show "\<exists>text line. snd (fire cfg event_name occ s) = [Send_text text, Print line]"
    using r by (cases e) (simp_all add: fire_def send_ping_def)
qed

theorem fire_registers_pending_ping_witness:
  "send_reply sample_occurrence = Inr (sample_message 10)
   \<and> distinct (map fst (active_ping_messages initial_state))
   \<and> fire_time sample_occurrence \<le> clock_after_send sample_occurrence
   \<and> entries_for ''Easy Dungeon''
       (active_ping_messages (fst (fire sample_config ''Easy Dungeon'' sample_occurrence initial_state))) = 1
   \<and> send_reply (sample_occurrence\<lparr>send_reply := Inl (Forbidden ''403'')\<rparr>) = Inl (Forbidden ''403'')
   \<and> fst (fire sample_config ''Easy Dungeon'' (sample_occurrence\<lparr>send_reply := Inl (Forbidden ''403'')\<rparr>)
            initial_state) = initial_state"
proof -
  have a: "send_reply sample_occurrence = Inr (sample_message 10)"
    by (simp add: sample_occurrence_def)
  have b: "distinct (map fst (active_ping_messages initial_state))"
    by (simp add: initial_state_def)
  have c: "fire_time sample_occurrence \<le> clock_after_send sample_occurrence"
    by (simp add: sample_occurrence_def usec_def)
  have d: "send_reply (sample_occurrence\<lparr>send_reply := Inl (Forbidden ''403'')\<rparr>) = Inl (Forbidden ''403'')"
    by simp
  from fire_registers_pending_ping [of sample_occurrence sample_config "''Easy Dungeon''" initial_state] a b
  have e: "entries_for ''Easy Dungeon''
       (active_ping_messages (fst (fire sample_config ''Easy Dungeon'' sample_occurrence initial_state))) = 1"
    by blast
  from fire_registers_pending_ping [of "sample_occurrence\<lparr>send_reply := Inl (Forbidden ''403'')\<rparr>"
      sample_config "''Easy Dungeon''" initial_state] d
  have f: "fst (fire sample_config ''Easy Dungeon'' (sample_occurrence\<lparr>send_reply := Inl (Forbidden ''403'')\<rparr>)
            initial_state) = initial_state"
    by blast
  from a b c d e f show ?thesis by blast
qed

section \<open>Properties of the DisplayReconciler\<close>

lemma creates_artifact_append [simp]:
  "creates_artifact (a @ b) \<longleftrightarrow> creates_artifact a \<or> creates_artifact b"
  by (simp add: creates_artifact_def)

lemma creates_artifact_Cons [simp]:
  "creates_artifact (e # es) \<longleftrightarrow> (case e of Send_embed x \<Rightarrow> True | _ \<Rightarrow> False) \<or> creates_artifact es"
  by (simp add: creates_artifact_def)

lemma creates_artifact_Nil [simp]: "\<not> creates_artifact []"
  by (simp add: creates_artifact_def)

lemma expired_pings_no_artifact: "\<not> creates_artifact (snd (expired_pings now dr pings))"
proof (induction pings)
  case Nil
  then show ?case by simp
next
  case (Cons p ps)
  obtain k d where p: "p = (k, d)" by (cases p)
  obtain r e where r: "expired_pings now dr ps = (r, e)" by (cases "expired_pings now dr ps")
  with Cons have "\<not> creates_artifact e" by simp
  then show ?case
    by (simp add: p r split: sum.splits failure.splits)
qed

lemma cleanup_no_artifact: "\<not> creates_artifact (snd (cleanup_ping_messages now dr s))"
  using expired_pings_no_artifact [of now dr "active_ping_messages s"]
  by (auto simp: cleanup_ping_messages_def split: prod.splits)

lemma cleanup_keeps_handle:
  "persistent_message (fst (cleanup_ping_messages now dr s)) = persistent_message s"
  by (simp add: cleanup_ping_messages_def split: prod.splits)

lemma start_loop_no_artifact [simp]: "\<not> creates_artifact (start_loop env)"
  by (simp add: start_loop_def)

lemma setup_creates_only_without_handle:
  assumes "creates_artifact (snd (setup_embed_message cfg env s))"
  shows "persistent_message s = None"
proof (rule ccontr)
  assume "persistent_message s \<noteq> None"
  then obtain held where h: "persistent_message s = Some held" by auto
  have "\<not> creates_artifact (snd (setup_embed_message cfg env s))"
    using h by (auto simp: setup_embed_message_def split: sum.splits option.splits)
  with assms show False by simp
qed

lemma find_in_set: "find P xs = Some x \<Longrightarrow> x \<in> set xs"
  by (induction xs) (auto split: if_splits)

lemma setup_handle_replaced:
  "persistent_message (fst (setup_embed_message cfg env s)) = persistent_message s
   \<or> (\<exists>msgs m. history_reply env = Inr msgs \<and> m \<in> set msgs
         \<and> persistent_message (fst (setup_embed_message cfg env s)) = Some m)
   \<or> (\<exists>m. create_reply env = Inr m
         \<and> persistent_message (fst (setup_embed_message cfg env s)) = Some m)"
proof (cases "channel_found env")
  case False
  then show ?thesis by (simp add: setup_embed_message_def)
next
  case True
  show ?thesis
  proof (cases "history_reply env")
    case (Inl e)
    with True show ?thesis by (simp add: setup_embed_message_def)
  next
    case (Inr msgs)
    show ?thesis
    proof (cases "find (is_schedule_message (client_user_id env)) (take 50 msgs)")
      case None
      with True Inr show ?thesis
        by (auto simp: setup_embed_message_def split: sum.splits option.splits)
    next
      case (Some m)
      then have "m \<in> set (take 50 msgs)" by (rule find_in_set)
      then have "m \<in> set msgs" by (rule in_set_takeD)
      with True Inr Some show ?thesis
        by (simp add: setup_embed_message_def)
    qed
  qed
qed

lemma update_embed_no_artifact: "\<not> creates_artifact (snd (update_embed cfg env s))"
proof (cases "persistent_message s")
  case None
  then show ?thesis by (simp add: update_embed_def)
next
  case (Some held)
  obtain s1 e1 where c: "cleanup_ping_messages (cleanup_now env) (delete_reply env) s = (s1, e1)"
    by (cases "cleanup_ping_messages (cleanup_now env) (delete_reply env) s")
  have e1: "\<not> creates_artifact e1"
    using cleanup_no_artifact [of "cleanup_now env" "delete_reply env" s] c by simp
  have h1: "persistent_message s1 = Some held"
    using cleanup_keeps_handle [of "cleanup_now env" "delete_reply env" s] c Some by simp
  obtain s2 e2 where r: "setup_embed_message cfg (recovery env) s1 = (s2, e2)"
    by (cases "setup_embed_message cfg (recovery env) s1")
  have e2: "\<not> creates_artifact e2"
    using setup_creates_only_without_handle [of cfg "recovery env" s1] h1 r by auto
  show ?thesis
  proof (cases "edit_reply env")
    case (Inr u)
    with e1 show ?thesis by (simp add: update_embed_def Let_def Some c)
  next
    case (Inl e)
    with e1 e2 show ?thesis
      by (cases e) (simp_all add: update_embed_def Let_def Some c r)
  qed
qed

lemma add_jobs_no_artifact:
  "\<not> creates_artifact (map (\<lambda>(event_name, schedule). Add_job (f event_name) schedule) jobs)"
  by (induction jobs) auto

lemma on_ready_creates_only_without_handle:
  assumes "creates_artifact (snd (on_ready cfg env s))"
  shows "persistent_message s = None"
proof (cases "guild_found env")
  case False
  with assms show ?thesis by (simp add: on_ready_def)
next
  case True
  obtain s1 e1 where c: "setup_embed_message cfg (setup_answers env) s = (s1, e1)"
    by (cases "setup_embed_message cfg (setup_answers env) s")
  from assms True c have "creates_artifact e1"
    by (simp add: on_ready_def add_jobs_no_artifact split: if_splits)
  with c setup_creates_only_without_handle [of cfg "setup_answers env" s] show ?thesis by simp
qed

lemma fire_no_artifact: "\<not> creates_artifact (snd (fire cfg event_name occ s))"
  by (simp add: fire_def send_ping_def Let_def split: sum.splits failure.splits)

lemma step_creates_only_without_handle:
  assumes "creates_artifact (snd (step cfg ev s))"
  shows "persistent_message s = None"
proof (cases ev)
  case (Ready env)
  with assms show ?thesis by (simp add: on_ready_creates_only_without_handle)
next
  case (Tick env)
  with assms update_embed_no_artifact show ?thesis by simp
next
  case (Fire n occ)
  with assms fire_no_artifact show ?thesis by simp
qed

text \<open>
  Claim C8. The state has one place for the handle of the display artifact, so at most
  one is held. In every run of the process, from any state, an event sends a placeholder
  embed only if no handle was held when the event began; and \<open>setup_embed_message\<close>
  leaves the handle as it was, or puts in its place a message of the history or the
  message it has just sent.
\<close>

theorem single_artifact_handle:
  "(\<forall>(pre, effs) \<in> set (trace cfg s evs). creates_artifact effs \<longrightarrow> persistent_message pre = None)
   \<and> (persistent_message (fst (setup_embed_message cfg env s)) = persistent_message s
      \<or> (\<exists>msgs m. history_reply env = Inr msgs \<and> m \<in> set msgs
            \<and> persistent_message (fst (setup_embed_message cfg env s)) = Some m)
      \<or> (\<exists>m. create_reply env = Inr m
            \<and> persistent_message (fst (setup_embed_message cfg env s)) = Some m))"
proof
  show "\<forall>(pre, effs) \<in> set (trace cfg s evs). creates_artifact effs \<longrightarrow> persistent_message pre = None"
  proof (induction evs arbitrary: s)
    case Nil
    then show ?case by simp
  next
    case (Cons ev evs)
    show ?case
      using Cons.IH [of "fst (step cfg ev s)"] step_creates_only_without_handle [of cfg ev s]
      by auto
  qed
  show "persistent_message (fst (setup_embed_message cfg env s)) = persistent_message s
      \<or> (\<exists>msgs m. history_reply env = Inr msgs \<and> m \<in> set msgs
            \<and> persistent_message (fst (setup_embed_message cfg env s)) = Some m)
      \<or> (\<exists>m. create_reply env = Inr m
            \<and> persistent_message (fst (setup_embed_message cfg env s)) = Some m)"
    by (rule setup_handle_replaced)
qed

lemma first_ready_step:
  "step sample_config (Ready first_ready) initial_state =
     (holding (schedule_message 11),
      [Print (robot @ '' Logged in as notifier (ID: 7)''), Print ''------'', History 50,
       Send_embed placeholder, Print ''Sent new persistent message: 11'', Loop_start,
       Print ''Started embed update loop.'']
      @ map (\<lambda>(event_name, schedule). Add_job (''ping_for_'' @ event_name) schedule) EVENT_SCHEDULE
      @ [Scheduler_start, Print (calendar @ '' APScheduler started and jobs are scheduled.''),
         Print (bell @ '' Monitoring 7 events for notifications.'')])"
  by (simp add: on_ready_def first_ready_def empty_channel_def setup_embed_message_def
      initial_state_def holding_def schedule_message_def start_loop_def str_int_def
      str_nat.simps digit_def EVENT_SCHEDULE_def sample_config_def)

theorem single_artifact_handle_witness:
  "(initial_state, snd (step sample_config (Ready first_ready) initial_state))
     \<in> set (trace sample_config initial_state [Ready first_ready, Tick deleted_tick])
   \<and> creates_artifact (snd (step sample_config (Ready first_ready) initial_state))
   \<and> persistent_message initial_state = None"
proof -
  have m: "(initial_state, snd (step sample_config (Ready first_ready) initial_state))
     \<in> set (trace sample_config initial_state [Ready first_ready, Tick deleted_tick])"
    by simp
  have c: "creates_artifact (snd (step sample_config (Ready first_ready) initial_state))"
    unfolding first_ready_step by simp
  from single_artifact_handle
    [of sample_config initial_state "[Ready first_ready, Tick deleted_tick]"] m c
  have "persistent_message initial_state = None" by blast
  with m c show ?thesis by simp
qed

text \<open>
  A tick whose edit fails with \<open>NotFound\<close>, when the history holds no schedule message
  of the bot, ends holding the handle it began with.
\<close>

lemma update_embed_not_found_keeps_handle:
  assumes "persistent_message s = Some held"
    and "edit_reply env = Inl (NotFound t)"
    and "channel_found (recovery env)"
    and "history_reply (recovery env) = Inr msgs"
    and "find (is_schedule_message (client_user_id (recovery env))) (take 50 msgs) = None"
  shows "persistent_message (fst (update_embed cfg env s)) = Some held"
proof -
  obtain s1 e1 where c: "cleanup_ping_messages (cleanup_now env) (delete_reply env) s = (s1, e1)"
    by (cases "cleanup_ping_messages (cleanup_now env) (delete_reply env) s")
  have h1: "persistent_message s1 = Some held"
    using cleanup_keeps_handle [of "cleanup_now env" "delete_reply env" s] c assms(1) by simp
  obtain s2 e2 where r: "setup_embed_message cfg (recovery env) s1 = (s2, e2)"
    by (cases "setup_embed_message cfg (recovery env) s1")
  have "fst (setup_embed_message cfg (recovery env) s1) = s1"
    using assms(3-5) h1 by (simp add: setup_embed_message_def)
  with r have "s2 = s1" by simp
  then show ?thesis
    using assms(1,2) c h1 r by (simp add: update_embed_def Let_def)
qed

text \<open>
  Claim C1. When the edit of a tick fails with \<open>NotFound\<close>, the handle is to be cleared
  and the locate-or-create step is to adopt a found artifact or create a new one, so that
  the deleted message is not the one held afterwards. On a tick whose edit fails with
  \<open>NotFound\<close>, in a channel whose history holds no schedule message, the handle held
  afterwards is still the deleted message and no placeholder is sent; the loop, which
  answers that it is running, is not started again.
\<close>

theorem update_embed_keeps_deleted_handle:
  "persistent_message (fst (update_embed sample_config deleted_tick (holding (schedule_message 10))))
     = Some (schedule_message 10)
   \<and> \<not> creates_artifact (snd (update_embed sample_config deleted_tick (holding (schedule_message 10))))
   \<and> Loop_start \<notin> set (snd (update_embed sample_config deleted_tick (holding (schedule_message 10))))"
proof -
  have "persistent_message (fst (update_embed sample_config deleted_tick (holding (schedule_message 10))))
     = Some (schedule_message 10)"
    by (rule update_embed_not_found_keeps_handle [where msgs = "[]" and t = "''404 Not Found''"])
      (simp_all add: holding_def deleted_tick_def empty_channel_def)
  moreover have "Loop_start \<notin> set (snd (update_embed sample_config deleted_tick (holding (schedule_message 10))))"
    by (simp add: update_embed_def holding_def deleted_tick_def empty_channel_def
        cleanup_ping_messages_def setup_embed_message_def start_loop_def)
  ultimately show ?thesis using update_embed_no_artifact by simp
qed

section \<open>Properties of the startup\<close>

text \<open>
  Claim C5. A configuration that lacks one of the four required values is to end the
  start with the descriptive fatal line. With \<open>GUILD_ID\<close> unset and the token set, the
  process ends with an uncaught \<open>TypeError\<close> raised on line 13; the test on line 264
  and its line of text are not reached.
\<close>

theorem main_missing_guild_id:
  "main token_only parse run_reply = Uncaught TypeError"
  by (simp add: main_def load_config_def int_of_env_def token_only_def)

text \<open>
  What does hold when a required value is unset: the bot is never run. The process
  ends with an uncaught exception or after printing the fatal line alone.
\<close>

lemma main_missing_never_runs:
  assumes "getenv ''BOT_TOKEN'' = None \<or> getenv ''GUILD_ID'' = None
           \<or> getenv ''CHANNEL_ID'' = None \<or> getenv ''NOTIFIER_ROLE_ID'' = None"
  shows "(\<exists>e. main getenv parse run_reply = Uncaught e)
         \<or> main getenv parse run_reply = Finished [Print fatal_config_line]"
  using assms
  by (auto simp: main_def load_config_def int_of_env_def split: sum.splits option.splits)

end
